theory Spec2Isabelle
  imports Complex_Main "HOL-Library.Word" "HOL-Library.AList"
begin

section \<open>ChromaPDF: colour transform, batch run and output assembly\<close>

text \<open>
  The development embeds three pieces of the application:
  \<^item> \<^verbatim>\<open>hexToRgb\<close> and \<^verbatim>\<open>colorizeImage\<close> of \<^verbatim>\<open>src/services/localImageService.ts\<close>;
  \<^item> \<^verbatim>\<open>handleColorizeAll\<close> of \<^verbatim>\<open>src/App.tsx\<close> (the batch run);
  \<^item> \<^verbatim>\<open>handleDownloadPDF\<close> of \<^verbatim>\<open>src/App.tsx\<close> (the output assembly).

  The browser, the PDF renderer (\<^verbatim>\<open>renderPageToImage\<close> of
  \<^verbatim>\<open>src/utils/pdfHelpers.ts\<close>, which only calls the library pdf.js) and the PDF
  writer (the library jsPDF) are parameters or small models of their own.

  Numbers. A JavaScript number is an IEEE-754 double. Page numbers, counters and
  the bytes of a pixel buffer are integers and are modelled exactly (\<open>nat\<close>, \<open>int\<close>,
  \<open>8 word\<close>). Every other number (boldness, luminance, the interpolation
  parameter, widths, heights, margins) is modelled as an exact \<open>real\<close>: the model
  performs the operations of the source in the order of the source, without the
  rounding of each double operation. \<^verbatim>\<open>Math.pow(t, gamma)\<close> is only called with
  \<open>0 < t\<close>, where it is the real power \<open>t powr gamma\<close>. The values \<^verbatim>\<open>NaN\<close> and
  \<^verbatim>\<open>Infinity\<close> do not exist in this model; the one place of the transform where
  they could arise from the arithmetic is the division by
  \<open>whitePoint - blackPoint\<close>, which is at least 45 for a boldness in \<open>[0, 100]\<close>.
\<close>

subsection \<open>hexToRgb\<close>

record rgb =
  rgb_r :: nat
  rgb_g :: nat
  rgb_b :: nat

text \<open>The character class \<^verbatim>\<open>[a-f\d]\<close> under the flag \<^verbatim>\<open>i\<close>.\<close>

definition hexChar :: "char \<Rightarrow> bool" where
  "hexChar c \<longleftrightarrow>
     (let n = (of_char c :: nat)
      in (48 \<le> n \<and> n \<le> 57) \<or> (97 \<le> n \<and> n \<le> 102) \<or> (65 \<le> n \<and> n \<le> 70))"

definition hexValue :: "char \<Rightarrow> nat" where
  "hexValue c =
     (let n = (of_char c :: nat)
      in if 48 \<le> n \<and> n \<le> 57 then n - 48
         else if 97 \<le> n \<and> n \<le> 102 then n - 87
         else n - 55)"

text \<open>
  \<^verbatim>\<open>/^#?([a-f\d]{2})([a-f\d]{2})([a-f\d]{2})$/i.exec(hex)\<close>: an optional leading
  \<^verbatim>\<open>#\<close>, then exactly six hexadecimal digits up to the end of the input. The
  result is the three capture groups, or \<open>None\<close> for \<^verbatim>\<open>null\<close>.
\<close>

definition hexExec :: "string \<Rightarrow> (string \<times> string \<times> string) option" where
  "hexExec hex =
     (let body = (case hex of [] \<Rightarrow> hex | c # cs \<Rightarrow> if c = CHR ''#'' then cs else hex)
      in if length body = 6 \<and> list_all hexChar body
         then Some (take 2 body, take 2 (drop 2 body), drop 4 body)
         else None)"

text \<open>
  \<^verbatim>\<open>parseInt(s, 16)\<close> reads the longest prefix of hexadecimal digits. It is only
  applied to a capture group, which consists of two such digits, so the \<^verbatim>\<open>NaN\<close>
  of an empty prefix does not occur.
\<close>

definition parseInt16 :: "string \<Rightarrow> nat" where
  "parseInt16 s = foldl (\<lambda>acc c. 16 * acc + hexValue c) 0 (takeWhile hexChar s)"

definition hexToRgb :: "string \<Rightarrow> rgb" where
  "hexToRgb hex =
     (case hexExec hex of
        Some (g1, g2, g3) \<Rightarrow>
          \<lparr>rgb_r = parseInt16 g1, rgb_g = parseInt16 g2, rgb_b = parseInt16 g3\<rparr>
      | None \<Rightarrow> \<lparr>rgb_r = 0, rgb_g = 0, rgb_b = 0\<rparr>)"

subsection \<open>The pixel loop of colorizeImage\<close>

type_synonym u8 = "8 word"

text \<open>\<^verbatim>\<open>Math.round\<close>: the nearest integer, a tie going up.\<close>

definition Math_round :: "real \<Rightarrow> int" where
  "Math_round x = \<lfloor>x + 0.5\<rfloor>"

text \<open>Storing an integer into a \<^verbatim>\<open>Uint8ClampedArray\<close> clamps it to \<open>0..255\<close>.\<close>

definition toUint8Clamp :: "int \<Rightarrow> u8" where
  "toUint8Clamp n = (if n \<le> 0 then 0 else if 255 \<le> n then 255 else word_of_int n)"

definition blackPoint :: "real \<Rightarrow> int" where
  "blackPoint boldness = \<lfloor>(boldness / 100) * 200\<rfloor>"

definition whitePoint :: "real \<Rightarrow> int" where
  "whitePoint boldness = 255 - \<lfloor>((100 - boldness) / 100) * 10\<rfloor>"

definition gamma :: "real \<Rightarrow> real" where
  "gamma boldness = 1.0 + (boldness / 100) * 3.0"

text \<open>
  Reading a typed array: \<open>None\<close> is the \<^verbatim>\<open>undefined\<close> of an index past the end.
  The buffer of an \<^verbatim>\<open>ImageData\<close> has \<open>4 * width * height\<close> entries, so the loop
  never reads past the end; the model still says what the source does there
  (\<^verbatim>\<open>undefined === 0\<close> is false, arithmetic on \<^verbatim>\<open>undefined\<close> is \<^verbatim>\<open>NaN\<close>, every
  comparison with \<^verbatim>\<open>NaN\<close> is false, a \<^verbatim>\<open>NaN\<close> is stored as 0 and a store past the
  end is dropped).
\<close>

definition rd :: "u8 list \<Rightarrow> nat \<Rightarrow> u8 option" where
  "rd data i = (if i < length data then Some (data ! i) else None)"

text \<open>One output channel: \<^verbatim>\<open>Math.round(target.c * (1 - t) + 255 * t)\<close>, stored.\<close>

definition interpolate :: "nat \<Rightarrow> real \<Rightarrow> u8" where
  "interpolate c t = toUint8Clamp (Math_round (real c * (1 - t) + 255 * t))"

text \<open>\<^verbatim>\<open>const luminance = 0.299 * r + 0.587 * g + 0.114 * b\<close>.\<close>

definition luminance :: "u8 \<Rightarrow> u8 \<Rightarrow> u8 \<Rightarrow> real" where
  "luminance r g b = 0.299 * real (unat r) + 0.587 * real (unat g) + 0.114 * real (unat b)"

text \<open>
  The four statements on \<open>t\<close>: the linear normalisation, the two clamping
  assignments and the guarded power curve.
\<close>

definition curve :: "int \<Rightarrow> int \<Rightarrow> real \<Rightarrow> real \<Rightarrow> real" where
  "curve bp wp gm lum =
     (let t = (lum - real_of_int bp) / (real_of_int wp - real_of_int bp);
          t = (if t < 0 then 0 else t);
          t = (if t > 1 then 1 else t);
          t = (if t > 0 \<and> t < 1 then t powr gm else t)
      in t)"

text \<open>The body of the loop at index \<open>i\<close>.\<close>

definition colorizeStep :: "rgb \<Rightarrow> int \<Rightarrow> int \<Rightarrow> real \<Rightarrow> u8 list \<Rightarrow> nat \<Rightarrow> u8 list" where
  "colorizeStep target bp wp gm data i =
     (if rd data (i + 3) = Some 0 then data
      else case (rd data i, rd data (i + 1), rd data (i + 2)) of
        (Some r, Some g, Some b) \<Rightarrow>
          (let t = curve bp wp gm (luminance r g b)
           in data[i := interpolate (rgb_r target) t,
                   i + 1 := interpolate (rgb_g target) t,
                   i + 2 := interpolate (rgb_b target) t])
      | _ \<Rightarrow> data[i := 0, i + 1 := 0, i + 2 := 0])"

text \<open>\<^verbatim>\<open>for (let i = 0; i < data.length; i += 4)\<close>, started at \<open>i\<close>.\<close>

function colorizeLoop :: "rgb \<Rightarrow> int \<Rightarrow> int \<Rightarrow> real \<Rightarrow> u8 list \<Rightarrow> nat \<Rightarrow> u8 list" where
  "colorizeLoop target bp wp gm data i =
     (if i < length data
      then colorizeLoop target bp wp gm (colorizeStep target bp wp gm data i) (i + 4)
      else data)"
  by pat_completeness auto
termination
  by (relation "measure (\<lambda>(target, bp, wp, gm, data, i). length data - i)")
     (auto simp: colorizeStep_def Let_def split: option.splits)

declare colorizeLoop.simps [simp del]

text \<open>
  The pixel pass of \<^verbatim>\<open>colorizeImage\<close>: the target colour, the three parameters
  derived from the boldness, then the loop over the whole buffer.
\<close>

definition colorizeData :: "string \<Rightarrow> real \<Rightarrow> u8 list \<Rightarrow> u8 list" where
  "colorizeData targetColorHex boldness data =
     colorizeLoop (hexToRgb targetColorHex)
       (blackPoint boldness) (whitePoint boldness) (gamma boldness) data 0"

text \<open>
  The rest of \<^verbatim>\<open>colorizeImage\<close> is browser plumbing: decoding the image, getting
  a canvas context, reading and writing the pixel buffer, encoding the canvas.
  The browser is a parameter: \<open>decodeImage\<close> is \<open>None\<close> when \<^verbatim>\<open>img.onerror\<close>
  fires, \<open>hasContext\<close> says whether \<^verbatim>\<open>getContext('2d')\<close> is non-null,
  \<open>canvasThrows\<close> says whether a canvas call inside the \<^verbatim>\<open>try\<close> block throws for
  this image, \<open>toDataURL\<close> encodes a raster.
\<close>

record raster =
  rs_width :: nat
  rs_height :: nat
  rs_data :: "u8 list"

record browser =
  decodeImage :: "string \<Rightarrow> raster option"
  hasContext :: bool
  canvasThrows :: "raster \<Rightarrow> bool"
  toDataURL :: "raster \<Rightarrow> string"

record ColorizationResult =
  res_imageUrl :: "string option"
  res_error :: "string option"

definition colorizeImage :: "browser \<Rightarrow> string \<Rightarrow> string \<Rightarrow> real \<Rightarrow> ColorizationResult" where
  "colorizeImage env base64Image targetColorHex boldness =
     (case decodeImage env base64Image of
        None \<Rightarrow> \<lparr>res_imageUrl = None, res_error = Some ''Failed to load image data.''\<rparr>
      | Some img \<Rightarrow>
          if \<not> hasContext env
          then \<lparr>res_imageUrl = None, res_error = Some ''Browser Canvas context not available''\<rparr>
          else if canvasThrows env img
          then \<lparr>res_imageUrl = None, res_error = Some ''Failed to process image locally.''\<rparr>
          else \<lparr>res_imageUrl =
                  Some (toDataURL env (img\<lparr>rs_data := colorizeData targetColorHex boldness (rs_data img)\<rparr>)),
                res_error = None\<rparr>)"

subsection \<open>The batch run: handleColorizeAll\<close>

record RenderedPage =
  pageNumber :: nat
  dataUrl :: string
  rp_width :: real
  rp_height :: real

record ColorizedPageData =
  imageUrl :: string
  width :: real
  height :: real

text \<open>
  A JavaScript \<^verbatim>\<open>Map\<close> keeps its entries in insertion order with unique keys:
  an association list. \<^verbatim>\<open>Map.set\<close> is \<^const>\<open>AList.update\<close> (a present key
  keeps its place), \<^verbatim>\<open>Map.get\<close> is \<^const>\<open>map_of\<close>, \<^verbatim>\<open>Map.size\<close> is the length.
\<close>

type_synonym pageCache = "(nat \<times> ColorizedPageData) list"

text \<open>The React state variables that the batch run writes.\<close>

record app =
  colorizedPages :: pageCache
  isProcessing :: bool
  batchProgress :: "(nat \<times> nat) option"
  error :: "string option"

datatype logEntry = PageError nat string | BatchError

text \<open>
  The state of one run: the React state as last set, the local
  \<^verbatim>\<open>newColorizedMap\<close>, what was written with \<^verbatim>\<open>console.error\<close>, and \<open>seen\<close>: the
  React state at each \<^verbatim>\<open>await\<close> of the handler. The handler runs on the single
  JavaScript thread, so these suspensions are the only moments at which anything
  else (a re-render, another handler) can look at the state during the run.
\<close>

record run =
  ui :: app
  newColorizedMap :: pageCache
  console :: "logEntry list"
  seen :: "app list"

definition suspend :: "run \<Rightarrow> run" where
  "suspend s = s\<lparr>seen := seen s @ [ui s]\<rparr>"

text \<open>
  An optional string used as a condition (\<^verbatim>\<open>if (result.error)\<close>): it counts when
  it is defined and not empty.
\<close>

definition truthy :: "string option \<Rightarrow> string option" where
  "truthy v = (case v of None \<Rightarrow> None | Some str \<Rightarrow> if str = [] then None else Some str)"

text \<open>
  The body of the \<^verbatim>\<open>try\<close> block: the loop from page \<open>i\<close>. \<open>render\<close> is
  \<^verbatim>\<open>renderPageToImage(pdfDoc, \<cdot>, resolutionScale)\<close>, which is \<open>None\<close> when the
  promise rejects (the \<^verbatim>\<open>await\<close> throws); \<open>colorize\<close> is
  \<^verbatim>\<open>colorizeImage(\<cdot>, targetHex, boldness)\<close>, whose promise never rejects. The
  first component of the result says whether the loop was left by an exception.
\<close>

function batchLoop ::
  "(nat \<Rightarrow> RenderedPage option) \<Rightarrow> (string \<Rightarrow> ColorizationResult) \<Rightarrow> nat \<Rightarrow> nat \<Rightarrow> run \<Rightarrow> bool \<times> run"
where
  "batchLoop render colorize numPages i s =
     (if i \<le> numPages then
        (let s = s\<lparr>ui := (ui s)\<lparr>batchProgress := Some (i, numPages)\<rparr>\<rparr>;
             s = suspend s
         in case render i of
              None \<Rightarrow> (True, s)
            | Some rendered \<Rightarrow>
                (let s = suspend s;
                     result = colorize (dataUrl rendered)
                 in batchLoop render colorize numPages (i + 1)
                      (case truthy (res_error result) of
                         Some err \<Rightarrow> s\<lparr>console := console s @ [PageError i err]\<rparr>
                       | None \<Rightarrow>
                           (case truthy (res_imageUrl result) of
                              Some url \<Rightarrow>
                                (let m = AList.update i
                                           \<lparr>imageUrl = url,
                                            width = rp_width rendered,
                                            height = rp_height rendered\<rparr>
                                           (newColorizedMap s)
                                 in s\<lparr>newColorizedMap := m, ui := (ui s)\<lparr>colorizedPages := m\<rparr>\<rparr>)
                            | None \<Rightarrow> s))))
      else (False, s))"
  by pat_completeness auto
termination
  by (relation "measure (\<lambda>(render, colorize, numPages, i, s). Suc numPages - i)") auto

declare batchLoop.simps [simp del]

text \<open>
  The handler. \<open>hasDoc\<close> is \<^verbatim>\<open>pdfDoc\<close> being non-null and \<open>st\<close> the React state
  when the handler starts; the result holds the final state, the log and the
  observations.
\<close>

definition handleColorizeAll ::
  "bool \<Rightarrow> (nat \<Rightarrow> RenderedPage option) \<Rightarrow> (string \<Rightarrow> ColorizationResult) \<Rightarrow> nat \<Rightarrow> app \<Rightarrow> run"
where
  "handleColorizeAll hasDoc render colorize numPages st =
     (if \<not> hasDoc
      then \<lparr>ui = st, newColorizedMap = colorizedPages st, console = [], seen = []\<rparr>
      else
        (let st = st\<lparr>isProcessing := True, batchProgress := Some (0, numPages), error := None\<rparr>;
             s = \<lparr>ui = st, newColorizedMap = colorizedPages st, console = [], seen = []\<rparr>;
             (threw, s) = batchLoop render colorize numPages 1 s;
             s = (if threw
                  then s\<lparr>ui := (ui s)\<lparr>error := Some ''Batch processing stopped due to an error.''\<rparr>,
                         console := console s @ [BatchError]\<rparr>
                  else s)
         in s\<lparr>ui := (ui s)\<lparr>isProcessing := False, batchProgress := None\<rparr>\<rparr>))"

subsection \<open>The output assembly: handleDownloadPDF\<close>

text \<open>
  Modelled from the spec: the Document Writer (section 6), which the source
  takes from the library jsPDF. A document is the list of its pages; a new
  document holds one blank page (A4, in the unit \<^verbatim>\<open>px\<close>); \<open>addPage\<close> appends a page
  of the given size and makes it the current page; \<open>addImage\<close> places an image
  on the current page. A page records its size and its images as the handler
  passes them to the library.
\<close>

record placedImage =
  img_url :: string
  img_x :: real
  img_y :: real
  img_w :: real
  img_h :: real

record pdfPage =
  page_w :: real
  page_h :: real
  page_images :: "placedImage list"

type_synonym pdfDocument = "pdfPage list"

definition newDocument :: pdfDocument where
  "newDocument = [\<lparr>page_w = 446.46, page_h = 631.4175, page_images = []\<rparr>]"

definition addPage :: "pdfDocument \<Rightarrow> real \<Rightarrow> real \<Rightarrow> pdfDocument" where
  "addPage doc w h = doc @ [\<lparr>page_w = w, page_h = h, page_images = []\<rparr>]"

definition addImage :: "pdfDocument \<Rightarrow> string \<Rightarrow> real \<Rightarrow> real \<Rightarrow> real \<Rightarrow> real \<Rightarrow> pdfDocument" where
  "addImage doc url x y w h =
     (case rev doc of
        [] \<Rightarrow> doc
      | p # ps \<Rightarrow>
          rev ps @ [p\<lparr>page_images := page_images p @
                       [\<lparr>img_url = url, img_x = x, img_y = y, img_w = w, img_h = h\<rparr>]\<rparr>])"

definition getNumberOfPages :: "pdfDocument \<Rightarrow> nat" where
  "getNumberOfPages doc = length doc"

definition deletePage :: "pdfDocument \<Rightarrow> nat \<Rightarrow> pdfDocument" where
  "deletePage doc n = take (n - 1) doc @ drop n doc"

text \<open>\<^verbatim>\<open>Math.floor(width * (marginPercent / 100))\<close>.\<close>

definition marginPx :: "real \<Rightarrow> real \<Rightarrow> int" where
  "marginPx w marginPercent = \<lfloor>w * (marginPercent / 100)\<rfloor>"

text \<open>The body of \<^verbatim>\<open>sortedPages.forEach\<close> for one entry.\<close>

definition emitPage :: "real \<Rightarrow> pdfDocument \<Rightarrow> nat \<times> ColorizedPageData \<Rightarrow> pdfDocument" where
  "emitPage marginPercent doc entry =
     (let pageData = snd entry;
          mp = real_of_int (marginPx (width pageData) marginPercent);
          pageWidth = width pageData + (mp * 2);
          pageHeight = height pageData + (mp * 2);
          doc = addPage doc pageWidth pageHeight
      in addImage doc (imageUrl pageData) mp mp (width pageData) (height pageData))"

text \<open>
  The handler: \<open>None\<close> when it returns without building anything, otherwise the
  document that is handed to \<^verbatim>\<open>doc.save\<close>. The comparator \<^verbatim>\<open>a[0] - b[0]\<close> sorts by
  page number, and \<^verbatim>\<open>Array.prototype.sort\<close> is stable, as \<^const>\<open>sort_key\<close> is.
\<close>

definition handleDownloadPDF :: "real \<Rightarrow> pageCache \<Rightarrow> pdfDocument option" where
  "handleDownloadPDF marginPercent pages =
     (if length pages = 0 then None
      else
        (let doc = newDocument;
             sortedPages = sort_key fst pages;
             doc = foldl (emitPage marginPercent) doc sortedPages;
             totalPages = getNumberOfPages doc;
             doc = (if totalPages > length sortedPages then deletePage doc 1 else doc)
         in Some doc))"

subsection \<open>Notions used in the statements\<close>

text \<open>
  Pixel \<open>k\<close> of a buffer is the four bytes from index \<open>4 * k\<close>: red, green, blue,
  alpha.
\<close>

definition pixelAt :: "u8 list \<Rightarrow> nat \<Rightarrow> u8 \<times> u8 \<times> u8 \<times> u8" where
  "pixelAt data k = (data ! (4 * k), data ! (4 * k + 1), data ! (4 * k + 2), data ! (4 * k + 3))"

definition rgbOf :: "u8 \<times> u8 \<times> u8 \<times> u8 \<Rightarrow> rgb" where
  "rgbOf px = (case px of (r, g, b, a) \<Rightarrow> \<lparr>rgb_r = unat r, rgb_g = unat g, rgb_b = unat b\<rparr>)"

definition alphaOf :: "u8 \<times> u8 \<times> u8 \<times> u8 \<Rightarrow> u8" where
  "alphaOf px = (case px of (r, g, b, a) \<Rightarrow> a)"

definition lumOf :: "u8 \<times> u8 \<times> u8 \<times> u8 \<Rightarrow> real" where
  "lumOf px = (case px of (r, g, b, a) \<Rightarrow> luminance r g b)"

text \<open>
  A valid 6-hex-digit RGB string: six hexadecimal digits, with or without a
  leading \<^verbatim>\<open>#\<close>.
\<close>

definition validHexColor :: "string \<Rightarrow> bool" where
  "validHexColor str \<longleftrightarrow>
     (\<exists>ds. length ds = 6 \<and> set ds \<subseteq> set ''0123456789abcdefABCDEF''
           \<and> (str = ds \<or> str = CHR ''#'' # ds))"

text \<open>What one iteration of the loop does to the pixel it visits.\<close>

fun colorizePixel :: "rgb \<Rightarrow> int \<Rightarrow> int \<Rightarrow> real \<Rightarrow> u8 \<times> u8 \<times> u8 \<times> u8 \<Rightarrow> u8 \<times> u8 \<times> u8 \<times> u8" where
  "colorizePixel target bp wp gm (r, g, b, a) =
     (if a = 0 then (r, g, b, a)
      else let t = curve bp wp gm (luminance r g b)
           in (interpolate (rgb_r target) t, interpolate (rgb_g target) t,
               interpolate (rgb_b target) t, a))"





text \<open>
  The page that the specification (section 4.4) gives for one artifact: the
  margin in pixels is the floor of the width times the margin percentage over
  100, the page is the artifact enlarged by that margin on every side, and the
  artifact sits at the offset \<open>(margin, margin)\<close>.
\<close>

definition outputPage :: "real \<Rightarrow> ColorizedPageData \<Rightarrow> pdfPage" where
  "outputPage marginPercent artifact =
     (let mp = real_of_int \<lfloor>width artifact * marginPercent / 100\<rfloor>
      in \<lparr>page_w = width artifact + 2 * mp,
          page_h = height artifact + 2 * mp,
          page_images = [\<lparr>img_url = imageUrl artifact, img_x = mp, img_y = mp,
                           img_w = width artifact, img_h = height artifact\<rparr>]\<rparr>)"

text \<open>The example of section 8: artifacts for the pages 2 and 5, page 5 stored first.\<close>

definition pagesTwoAndFive :: pageCache where
  "pagesTwoAndFive =
     [(5, \<lparr>imageUrl = ''five'', width = 100, height = 200\<rparr>),
      (2, \<lparr>imageUrl = ''two'', width = 300, height = 400\<rparr>)]"

text \<open>
  What the batch run stores for page \<open>i\<close>, if anything: the artifact when the
  render succeeds, the transform reports no error and returns an image.
\<close>

definition pageArtifact ::
  "(nat \<Rightarrow> RenderedPage option) \<Rightarrow> (string \<Rightarrow> ColorizationResult) \<Rightarrow> nat \<Rightarrow> ColorizedPageData option"
where
  "pageArtifact render colorize i =
     (case render i of
        None \<Rightarrow> None
      | Some rendered \<Rightarrow>
          (let result = colorize (dataUrl rendered)
           in case truthy (res_error result) of
                Some err \<Rightarrow> None
              | None \<Rightarrow>
                  (case truthy (res_imageUrl result) of
                     Some url \<Rightarrow> Some \<lparr>imageUrl = url, width = rp_width rendered,
                                      height = rp_height rendered\<rparr>
                   | None \<Rightarrow> None)))"

text \<open>What the batch run logs for page \<open>i\<close> when its transform reports an error.\<close>

definition pageFailure ::
  "(nat \<Rightarrow> RenderedPage option) \<Rightarrow> (string \<Rightarrow> ColorizationResult) \<Rightarrow> nat \<Rightarrow> logEntry list"
where
  "pageFailure render colorize i =
     (case render i of
        None \<Rightarrow> []
      | Some rendered \<Rightarrow>
          (case truthy (res_error (colorize (dataUrl rendered))) of
             Some err \<Rightarrow> [PageError i err]
           | None \<Rightarrow> []))"

text \<open>
  The cache after the pages \<open>lo, \<dots>, hi - 1\<close> have been processed, looked up at
  page \<open>l\<close>: the new artifact where one was stored, the earlier entry elsewhere.
\<close>

definition cacheAfter ::
  "(nat \<Rightarrow> RenderedPage option) \<Rightarrow> (string \<Rightarrow> ColorizationResult) \<Rightarrow> pageCache
     \<Rightarrow> nat \<Rightarrow> nat \<Rightarrow> nat \<Rightarrow> ColorizedPageData option"
where
  "cacheAfter render colorize cache lo hi l =
     (if lo \<le> l \<and> l < hi
      then (case pageArtifact render colorize l of
              Some artifact \<Rightarrow> Some artifact
            | None \<Rightarrow> map_of cache l)
      else map_of cache l)"

text \<open>The state at the end of the iteration for page \<open>i\<close>, when its render succeeded.\<close>

definition afterPage :: "(string \<Rightarrow> ColorizationResult) \<Rightarrow> nat \<Rightarrow> nat \<Rightarrow> RenderedPage \<Rightarrow> run \<Rightarrow> run" where
  "afterPage colorize numPages i rendered s =
     (let s = s\<lparr>ui := (ui s)\<lparr>batchProgress := Some (i, numPages)\<rparr>\<rparr>;
          s = suspend s;
          s = suspend s;
          result = colorize (dataUrl rendered)
      in case truthy (res_error result) of
           Some err \<Rightarrow> s\<lparr>console := console s @ [PageError i err]\<rparr>
         | None \<Rightarrow>
             (case truthy (res_imageUrl result) of
                Some url \<Rightarrow>
                  (let m = AList.update i
                             \<lparr>imageUrl = url, width = rp_width rendered,
                              height = rp_height rendered\<rparr>
                             (newColorizedMap s)
                   in s\<lparr>newColorizedMap := m, ui := (ui s)\<lparr>colorizedPages := m\<rparr>\<rparr>)
              | None \<Rightarrow> s))"

text \<open>
  Page \<open>k\<close> is where the renders stop: the first page whose render throws, or
  \<open>numPages + 1\<close> when no render throws.
\<close>

definition rendersStopAt :: "(nat \<Rightarrow> RenderedPage option) \<Rightarrow> nat \<Rightarrow> nat \<Rightarrow> bool" where
  "rendersStopAt render numPages k \<longleftrightarrow>
     1 \<le> k \<and> k \<le> Suc numPages \<and> list_all (\<lambda>j. render j \<noteq> None) [1..<k]
     \<and> (k = Suc numPages \<or> render k = None)"

text \<open>
  Example inputs: an idle application with an empty cache, a renderer that
  succeeds on every page and one that throws on page 3, a transform that
  succeeds on every page and one that reports an error for page 2.
\<close>

definition idleApp :: app where
  "idleApp = \<lparr>colorizedPages = [], isProcessing = False, batchProgress = None, error = None\<rparr>"

definition renderAll :: "nat \<Rightarrow> RenderedPage option" where
  "renderAll i = Some \<lparr>pageNumber = i, dataUrl = replicate i CHR ''p'',
                        rp_width = 1836, rp_height = 2376\<rparr>"

definition renderExcept3 :: "nat \<Rightarrow> RenderedPage option" where
  "renderExcept3 i = (if i = 3 then None else renderAll i)"

definition colorizeOk :: "string \<Rightarrow> ColorizationResult" where
  "colorizeOk url = \<lparr>res_imageUrl = Some (''tinted-'' @ url), res_error = None\<rparr>"

definition colorizeExcept2 :: "string \<Rightarrow> ColorizationResult" where
  "colorizeExcept2 url =
     (if url = ''pp''
      then \<lparr>res_imageUrl = None, res_error = Some ''Failed to load image data.''\<rparr>
      else colorizeOk url)"

section \<open>Properties\<close>

subsection \<open>The pixel loop, pixel by pixel\<close>

lemma length_colorizeStep [simp]:
  "length (colorizeStep target bp wp gm data i) = length data"
  by (simp add: colorizeStep_def Let_def split: option.splits)

lemma colorizeStep_pixel:
  assumes "4 * k + 3 < length data"
  shows "pixelAt (colorizeStep target bp wp gm data (4 * k)) k
           = colorizePixel target bp wp gm (pixelAt data k)"
  using assms by (simp add: colorizeStep_def pixelAt_def rd_def Let_def)

lemma colorizeStep_other:
  assumes "j \<noteq> k"
  shows "pixelAt (colorizeStep target bp wp gm data (4 * k)) j = pixelAt data j"
proof -
  have "4 * j \<noteq> 4 * k" "4 * j + 1 \<noteq> 4 * k" "4 * j + 2 \<noteq> 4 * k" "4 * j + 3 \<noteq> 4 * k"
       "4 * j \<noteq> 4 * k + 1" "4 * j + 1 \<noteq> 4 * k + 1" "4 * j + 2 \<noteq> 4 * k + 1" "4 * j + 3 \<noteq> 4 * k + 1"
       "4 * j \<noteq> 4 * k + 2" "4 * j + 1 \<noteq> 4 * k + 2" "4 * j + 2 \<noteq> 4 * k + 2" "4 * j + 3 \<noteq> 4 * k + 2"
    using assms by presburger+
  then show ?thesis
    by (simp add: colorizeStep_def pixelAt_def Let_def split: option.splits)
qed

lemma colorizeLoop_pixel:
  assumes "4 * k + 3 < length data"
  shows "pixelAt (colorizeLoop target bp wp gm data (4 * m)) k
           = (if k < m then pixelAt data k
              else colorizePixel target bp wp gm (pixelAt data k))"
  using assms
proof (induction "(length data + 3) div 4 - m" arbitrary: data m)
  case 0
  then have "\<not> 4 * m < length data" "k < m" by arith+
  then show ?case
    by (subst colorizeLoop.simps) simp
next
  case (Suc n)
  let ?data' = "colorizeStep target bp wp gm data (4 * m)"
  from Suc.hyps(2) have run: "4 * m < length data" by arith
  have "n = (length ?data' + 3) div 4 - Suc m" using Suc.hyps(2) by simp
  moreover have "4 * k + 3 < length ?data'"
    using Suc.prems by simp
  ultimately have IH: "pixelAt (colorizeLoop target bp wp gm ?data' (4 * Suc m)) k
           = (if k < Suc m then pixelAt ?data' k
              else colorizePixel target bp wp gm (pixelAt ?data' k))"
    by (rule Suc.hyps(1))
  have unfold: "colorizeLoop target bp wp gm data (4 * m)
                  = colorizeLoop target bp wp gm ?data' (4 * Suc m)"
    using run by (subst colorizeLoop.simps) (simp add: add.commute)
  show ?case
  proof (cases "k = m")
    case True
    then show ?thesis
      using IH unfold colorizeStep_pixel [of m data target bp wp gm] Suc.prems by simp
  next
    case False
    then show ?thesis
      using IH unfold colorizeStep_other [of k m target bp wp gm data] by auto
  qed
qed

lemma colorizeData_pixel:
  assumes "4 * k + 3 < length data"
  shows "pixelAt (colorizeData hex boldness data) k
           = colorizePixel (hexToRgb hex) (blackPoint boldness) (whitePoint boldness)
               (gamma boldness) (pixelAt data k)"
  using colorizeLoop_pixel [OF assms, of _ _ _ _ 0] by (simp add: colorizeData_def)

lemma hexValue_le: "hexChar c \<Longrightarrow> hexValue c \<le> 15"
  by (auto simp: hexChar_def hexValue_def Let_def)

lemma parseInt16_pair:
  assumes "length s = 2" "list_all hexChar s"
  shows "parseInt16 s \<le> 255"
proof -
  from assms(1) obtain c d where s: "s = [c, d]"
    by (auto simp: length_Suc_conv numeral_2_eq_2)
  with assms(2) have "hexChar c" "hexChar d" by simp_all
  then have "hexValue c \<le> 15" "hexValue d \<le> 15" by (simp_all add: hexValue_le)
  then show ?thesis using \<open>hexChar c\<close> \<open>hexChar d\<close> by (simp add: parseInt16_def s)
qed

lemma hexExec_groups:
  assumes "hexExec hex = Some (g1, g2, g3)"
  shows "length g1 = 2 \<and> list_all hexChar g1 \<and> length g2 = 2 \<and> list_all hexChar g2
         \<and> length g3 = 2 \<and> list_all hexChar g3"
proof -
  define body where "body = (case hex of [] \<Rightarrow> hex | c # cs \<Rightarrow> if c = CHR ''#'' then cs else hex)"
  from assms have len: "length body = 6" and hexes: "list_all hexChar body"
    and grp: "g1 = take 2 body" "g2 = take 2 (drop 2 body)" "g3 = drop 4 body"
    by (auto simp: hexExec_def body_def [symmetric] Let_def split: if_splits)
  have "list_all hexChar (take 2 body)" "list_all hexChar (take 2 (drop 2 body))"
       "list_all hexChar (drop 4 body)"
    using hexes by (auto simp: list_all_iff dest: in_set_takeD in_set_dropD)
  then show ?thesis using len by (simp add: grp)
qed

lemma hexToRgb_le:
  "rgb_r (hexToRgb hex) \<le> 255 \<and> rgb_g (hexToRgb hex) \<le> 255 \<and> rgb_b (hexToRgb hex) \<le> 255"
proof (cases "hexExec hex")
  case None
  then show ?thesis by (simp add: hexToRgb_def)
next
  case (Some grp)
  obtain g1 g2 g3 where grp: "grp = (g1, g2, g3)" by (cases grp) auto
  from hexExec_groups [of hex g1 g2 g3] Some grp
  show ?thesis by (simp add: hexToRgb_def parseInt16_pair)
qed

lemma curve_range:
  assumes "0 \<le> gm"
  shows "0 \<le> curve bp wp gm lum \<and> curve bp wp gm lum \<le> 1"
proof -
  have "t powr gm \<le> 1" if "0 < t" "t < 1" for t :: real
    using that assms by (intro powr_le1) simp_all
  then show ?thesis by (simp add: curve_def Let_def)
qed

lemma Math_round_bounds:
  assumes "real_of_int lo \<le> x" "x \<le> real_of_int hi"
  shows "lo \<le> Math_round x \<and> Math_round x \<le> hi"
proof -
  have "lo \<le> \<lfloor>x + 0.5\<rfloor>" using assms(1) by (simp add: le_floor_iff)
  moreover have "\<lfloor>x + 0.5\<rfloor> \<le> hi" using assms(2) by (simp add: floor_le_iff)
  ultimately show ?thesis by (simp add: Math_round_def)
qed

lemma unat_toUint8Clamp:
  "unat (toUint8Clamp n) = (if n \<le> 0 then 0 else if 255 \<le> n then 255 else nat n)"
proof -
  have "unat (word_of_int n :: u8) = nat n" if "0 < n" "n < 255"
  proof -
    have "take_bit 8 n = n"
      using that by (intro take_bit_int_eq_self) simp_all
    then show ?thesis
      by (simp add: unat_eq_nat_uint uint_word_of_int_eq)
  qed
  then show ?thesis
    by (simp add: toUint8Clamp_def)
qed

lemma blend_range:
  assumes "c \<le> 255" "0 \<le> t" "t \<le> 1"
  shows "real c \<le> real c * (1 - t) + 255 * t \<and> real c * (1 - t) + 255 * t \<le> 255"
proof -
  have eq: "real c * (1 - t) + 255 * t = real c + (255 - real c) * t" by algebra
  have "0 \<le> (255 - real c) * t" using assms by simp
  moreover have "(255 - real c) * t \<le> (255 - real c) * 1"
    using assms by (intro mult_left_mono) simp_all
  ultimately show ?thesis unfolding eq by simp
qed

lemma interpolate_range:
  assumes "c \<le> 255" "0 \<le> t" "t \<le> 1"
  shows "c \<le> unat (interpolate c t) \<and> unat (interpolate c t) \<le> 255"
proof -
  from blend_range [OF assms]
  have "int c \<le> Math_round (real c * (1 - t) + 255 * t) \<and>
        Math_round (real c * (1 - t) + 255 * t) \<le> 255"
    by (intro Math_round_bounds) simp_all
  then show ?thesis
    by (auto simp: interpolate_def unat_toUint8Clamp)
qed


lemma gamma_ge_1: "0 \<le> boldness \<Longrightarrow> 1 \<le> gamma boldness"
  by (simp add: gamma_def)

text \<open>
  Claim C8. For every image, target colour and boldness, a pixel whose alpha byte
  is 0 leaves the transform as it entered it: red, green, blue and alpha are the
  input bytes.
\<close>

theorem transparent_pixels_unchanged:
  assumes "4 * k + 3 < length data" and "data ! (4 * k + 3) = 0"
  shows "pixelAt (colorizeData targetColorHex boldness data) k = pixelAt data k"
  using colorizeData_pixel [OF assms(1)] assms(2) by (simp add: pixelAt_def)

theorem transparent_pixels_unchanged_witness:
  "4 * 0 + 3 < length [10, 20, 30, 0, 200, 200, 200, 255 :: u8]
   \<and> [10, 20, 30, 0, 200, 200, 200, 255 :: u8] ! (4 * 0 + 3) = 0
   \<and> pixelAt (colorizeData ''#EF4444'' 60 [10, 20, 30, 0, 200, 200, 200, 255]) 0
       = pixelAt [10, 20, 30, 0, 200, 200, 200, 255] 0"
proof -
  have h: "4 * 0 + 3 < length [10, 20, 30, 0, 200, 200, 200, 255 :: u8]"
    "[10, 20, 30, 0, 200, 200, 200, 255 :: u8] ! (4 * 0 + 3) = 0"
    by simp_all
  from transparent_pixels_unchanged [OF h, of "''#EF4444''" 60] h
  show ?thesis by blast
qed

lemma colorizeData_opaque:
  assumes "4 * k + 3 < length data" and "data ! (4 * k + 3) \<noteq> 0"
  shows "pixelAt (colorizeData hex boldness data) k =
           (let t = curve (blackPoint boldness) (whitePoint boldness) (gamma boldness)
                      (lumOf (pixelAt data k))
            in (interpolate (rgb_r (hexToRgb hex)) t, interpolate (rgb_g (hexToRgb hex)) t,
                interpolate (rgb_b (hexToRgb hex)) t, data ! (4 * k + 3)))"
  using colorizeData_pixel [OF assms(1), of hex boldness] assms(2)
  by (simp add: pixelAt_def lumOf_def Let_def)

text \<open>
  Claim C10. For a boldness in \<open>[0, 100]\<close>, any target colour and any pixel whose
  alpha byte is not 0, each output channel lies between the channel of the target
  colour and 255.
\<close>

theorem output_between_target_and_white:
  assumes "0 \<le> boldness" and "boldness \<le> 100"
    and "4 * k + 3 < length data" and "data ! (4 * k + 3) \<noteq> 0"
  shows "rgb_r (hexToRgb targetColorHex)
           \<le> rgb_r (rgbOf (pixelAt (colorizeData targetColorHex boldness data) k))
       \<and> rgb_r (rgbOf (pixelAt (colorizeData targetColorHex boldness data) k)) \<le> 255
       \<and> rgb_g (hexToRgb targetColorHex)
           \<le> rgb_g (rgbOf (pixelAt (colorizeData targetColorHex boldness data) k))
       \<and> rgb_g (rgbOf (pixelAt (colorizeData targetColorHex boldness data) k)) \<le> 255
       \<and> rgb_b (hexToRgb targetColorHex)
           \<le> rgb_b (rgbOf (pixelAt (colorizeData targetColorHex boldness data) k))
       \<and> rgb_b (rgbOf (pixelAt (colorizeData targetColorHex boldness data) k)) \<le> 255"
proof -
  let ?t = "curve (blackPoint boldness) (whitePoint boldness) (gamma boldness)
              (lumOf (pixelAt data k))"
  have t: "0 \<le> ?t" "?t \<le> 1"
    using gamma_ge_1 [OF assms(1)] curve_range [of "gamma boldness"] by simp_all
  have le: "rgb_r (hexToRgb targetColorHex) \<le> 255" "rgb_g (hexToRgb targetColorHex) \<le> 255"
    "rgb_b (hexToRgb targetColorHex) \<le> 255"
    using hexToRgb_le [of targetColorHex] by simp_all
  show ?thesis
    unfolding colorizeData_opaque [OF assms(3,4)] Let_def rgbOf_def
    using interpolate_range [OF le(1) t] interpolate_range [OF le(2) t]
      interpolate_range [OF le(3) t]
    by simp
qed

theorem output_between_target_and_white_witness:
  "(0::real) \<le> 60 \<and> (60::real) \<le> 100
   \<and> 4 * 0 + 3 < length [100, 100, 100, 255 :: u8]
   \<and> [100, 100, 100, 255 :: u8] ! (4 * 0 + 3) \<noteq> 0
   \<and> rgb_r (hexToRgb ''#3B82F6'')
        \<le> rgb_r (rgbOf (pixelAt (colorizeData ''#3B82F6'' 60 [100, 100, 100, 255]) 0))
   \<and> rgb_r (rgbOf (pixelAt (colorizeData ''#3B82F6'' 60 [100, 100, 100, 255]) 0)) \<le> 255"
proof -
  have h: "(0::real) \<le> 60" "(60::real) \<le> 100"
    "4 * 0 + 3 < length [100, 100, 100, 255 :: u8]"
    "[100, 100, 100, 255 :: u8] ! (4 * 0 + 3) \<noteq> 0"
    by simp_all
  from output_between_target_and_white [OF h, of "''#3B82F6''"] h
  show ?thesis by blast
qed

lemma hexChar_iff: "hexChar c \<longleftrightarrow> c \<in> set ''0123456789abcdefABCDEF''"
proof -
  define n where "n = (of_char c :: nat)"
  have inj: "inj (of_char :: char \<Rightarrow> nat)"
    by (simp add: inj_on_def)
  have "c \<in> set ''0123456789abcdefABCDEF''
          \<longleftrightarrow> n \<in> of_char ` set ''0123456789abcdefABCDEF''"
    unfolding n_def by (rule inj_image_mem_iff [OF inj, symmetric])
  also have "\<dots> \<longleftrightarrow> n \<in> {48, 49, 50, 51, 52, 53, 54, 55, 56, 57, 97, 98, 99, 100, 101, 102,
                   65, 66, 67, 68, 69, 70}"
    by simp
  also have "\<dots> \<longleftrightarrow> (48 \<le> n \<and> n \<le> 57) \<or> (97 \<le> n \<and> n \<le> 102) \<or> (65 \<le> n \<and> n \<le> 70)"
    by (simp only: insert_iff empty_iff) arith
  finally show ?thesis
    by (simp add: hexChar_def n_def Let_def)
qed

lemma hexExec_valid: "hexExec hex \<noteq> None \<longleftrightarrow> validHexColor hex"
proof
  assume ex: "hexExec hex \<noteq> None"
  define body where "body = (case hex of [] \<Rightarrow> hex | c # cs \<Rightarrow> if c = CHR ''#'' then cs else hex)"
  from ex have len: "length body = 6" and hexes: "list_all hexChar body"
    by (auto simp: hexExec_def body_def [symmetric] Let_def split: if_splits)
  have shape: "hex = body \<or> hex = CHR ''#'' # body"
    by (cases hex) (simp_all add: body_def)
  have "x \<in> set ''0123456789abcdefABCDEF''" if "x \<in> set body" for x
  proof -
    from hexes that have "hexChar x" by (simp add: list_all_iff)
    then show ?thesis by (simp only: hexChar_iff)
  qed
  then have "set body \<subseteq> set ''0123456789abcdefABCDEF''" by blast
  with len shape show "validHexColor hex"
    unfolding validHexColor_def by blast
next
  assume "validHexColor hex"
  then obtain ds where ds: "length ds = 6" "set ds \<subseteq> set ''0123456789abcdefABCDEF''"
      "hex = ds \<or> hex = CHR ''#'' # ds"
    unfolding validHexColor_def by blast
  have "hexChar x" if "x \<in> set ds" for x
  proof -
    from ds(2) that have "x \<in> set ''0123456789abcdefABCDEF''" by blast
    then show ?thesis by (simp only: hexChar_iff)
  qed
  then have all: "list_all hexChar ds"
    by (simp add: list_all_iff)
  from ds(3) show "hexExec hex \<noteq> None"
  proof
    assume "hex = CHR ''#'' # ds"
    then show ?thesis using ds(1) all by (simp add: hexExec_def)
  next
    assume hex: "hex = ds"
    from ds(1) obtain c cs where cs: "ds = c # cs" by (cases ds) auto
    with all have "hexChar c" by simp
    then have "c \<noteq> CHR ''#''" by (auto simp: hexChar_def)
    then show ?thesis using ds(1) all by (simp add: hexExec_def hex cs)
  qed
qed

lemma hexToRgb_invalid:
  assumes "\<not> validHexColor hex"
  shows "hexToRgb hex = \<lparr>rgb_r = 0, rgb_g = 0, rgb_b = 0\<rparr>"
proof -
  from assms have "hexExec hex = None" using hexExec_valid [of hex] by blast
  then show ?thesis by (simp add: hexToRgb_def)
qed

lemma hexToRgb_black: "hexToRgb ''#000000'' = \<lparr>rgb_r = 0, rgb_g = 0, rgb_b = 0\<rparr>"
  by (simp add: hexToRgb_def hexExec_def parseInt16_def hexChar_def hexValue_def)

text \<open>
  Claim C9. A target-colour string that is not a valid 6-hex-digit RGB string is
  read as black, and the transform then does exactly what it does for
  \<^verbatim>\<open>#000000\<close>: the pixel pass and the whole result are those of black, so the
  result is an error only when the browser fails.
\<close>

theorem malformed_color_is_black:
  assumes "\<not> validHexColor targetColorHex"
  shows "hexToRgb targetColorHex = \<lparr>rgb_r = 0, rgb_g = 0, rgb_b = 0\<rparr>
       \<and> colorizeData targetColorHex boldness data = colorizeData ''#000000'' boldness data
       \<and> colorizeImage env base64Image targetColorHex boldness
            = colorizeImage env base64Image ''#000000'' boldness
       \<and> (\<forall>img. decodeImage env base64Image = Some img \<and> hasContext env \<and> \<not> canvasThrows env img
            \<longrightarrow> res_error (colorizeImage env base64Image targetColorHex boldness) = None)"
proof -
  have tg: "hexToRgb targetColorHex = hexToRgb ''#000000''"
    using hexToRgb_invalid [OF assms] hexToRgb_black by simp
  then have "colorizeData targetColorHex boldness d = colorizeData ''#000000'' boldness d" for d
    by (simp add: colorizeData_def)
  then show ?thesis
    using hexToRgb_invalid [OF assms]
    by (auto simp: colorizeImage_def split: option.splits)
qed

theorem malformed_color_is_black_witness:
  "\<not> validHexColor ''#fff''
   \<and> hexToRgb ''#fff'' = \<lparr>rgb_r = 0, rgb_g = 0, rgb_b = 0\<rparr>
   \<and> colorizeData ''#fff'' 60 [10, 20, 30, 255] = colorizeData ''#000000'' 60 [10, 20, 30, 255]"
proof -
  have h: "\<not> validHexColor ''#fff''"
    by (simp add: hexExec_valid [symmetric] hexExec_def hexChar_def)
  from malformed_color_is_black [OF h, of 60 "[10, 20, 30, 255]"] h show ?thesis by simp
qed

subsection \<open>The transform at fixed boldness and in general\<close>

lemma params_100: "blackPoint 100 = 200" "whitePoint 100 = 255" "gamma 100 = 4"
  by (simp_all add: blackPoint_def whitePoint_def gamma_def)


lemma curve_dark:
  assumes "lum \<le> real_of_int bp" "bp < wp"
  shows "curve bp wp gm lum = 0"
proof -
  have "(lum - real_of_int bp) / (real_of_int wp - real_of_int bp) \<le> 0"
    using assms by (simp add: divide_le_0_iff)
  then show ?thesis by (simp add: curve_def Let_def)
qed

lemma interpolate_0:
  assumes "c \<le> 255"
  shows "unat (interpolate c 0) = c"
proof -
  have "Math_round (real c) = int c" by (simp add: Math_round_def)
  then show ?thesis using assms by (simp add: interpolate_def unat_toUint8Clamp)
qed

text \<open>
  Claim C4. At boldness 100 the black point is 200 and gamma is 4; a pixel whose
  alpha byte is not 0 and whose luminance is at most 200 gets \<open>t = 0\<close>, and its
  output red, green and blue are the channels of the target colour.
\<close>

theorem full_boldness_dark_pixel_is_target:
  assumes "4 * k + 3 < length data" and "data ! (4 * k + 3) \<noteq> 0"
    and "lumOf (pixelAt data k) \<le> 200"
  shows "blackPoint 100 = 200 \<and> gamma 100 = 4
       \<and> curve (blackPoint 100) (whitePoint 100) (gamma 100) (lumOf (pixelAt data k)) = 0
       \<and> rgbOf (pixelAt (colorizeData targetColorHex 100 data) k) = hexToRgb targetColorHex
       \<and> alphaOf (pixelAt (colorizeData targetColorHex 100 data) k) = alphaOf (pixelAt data k)"
proof -
  have t0: "curve (blackPoint 100) (whitePoint 100) (gamma 100) (lumOf (pixelAt data k)) = 0"
    using assms(3) by (simp add: params_100 curve_dark)
  have le: "rgb_r (hexToRgb targetColorHex) \<le> 255" "rgb_g (hexToRgb targetColorHex) \<le> 255"
    "rgb_b (hexToRgb targetColorHex) \<le> 255"
    using hexToRgb_le [of targetColorHex] by simp_all
  have "rgbOf (pixelAt (colorizeData targetColorHex 100 data) k) = hexToRgb targetColorHex"
    unfolding colorizeData_opaque [OF assms(1,2)] Let_def t0
    by (simp add: rgbOf_def interpolate_0 le)
  moreover have "alphaOf (pixelAt (colorizeData targetColorHex 100 data) k)
                   = alphaOf (pixelAt data k)"
    unfolding colorizeData_opaque [OF assms(1,2)] Let_def
    by (simp add: alphaOf_def pixelAt_def)
  ultimately show ?thesis using t0 by (simp add: params_100)
qed

theorem full_boldness_dark_pixel_is_target_witness:
  "4 * 0 + 3 < length [200, 200, 200, 255 :: u8]
   \<and> [200, 200, 200, 255 :: u8] ! (4 * 0 + 3) \<noteq> 0
   \<and> lumOf (pixelAt [200, 200, 200, 255] 0) \<le> 200
   \<and> rgbOf (pixelAt (colorizeData ''#3B82F6'' 100 [200, 200, 200, 255]) 0) = hexToRgb ''#3B82F6''"
proof -
  have h: "4 * 0 + 3 < length [200, 200, 200, 255 :: u8]"
    "[200, 200, 200, 255 :: u8] ! (4 * 0 + 3) \<noteq> 0"
    "lumOf (pixelAt [200, 200, 200, 255] 0) \<le> 200"
    by (simp_all add: lumOf_def pixelAt_def luminance_def)
  from full_boldness_dark_pixel_is_target [OF h, of "''#3B82F6''"] h
  show ?thesis by blast
qed














subsection \<open>The output assembly\<close>

lemma emitPage_appends:
  "emitPage m doc entry = doc @ [outputPage m (snd entry)]"
  by (simp add: emitPage_def addPage_def addImage_def outputPage_def marginPx_def Let_def
        mult.commute)

lemma foldl_emitPage:
  "foldl (emitPage m) doc entries = doc @ map (\<lambda>entry. outputPage m (snd entry)) entries"
  by (induction entries arbitrary: doc) (simp_all add: emitPage_appends)

lemma handleDownloadPDF_pages:
  assumes "pages \<noteq> []"
  shows "handleDownloadPDF m pages
           = Some (map (\<lambda>entry. outputPage m (snd entry)) (sort_key fst pages))"
  using assms
  by (simp add: handleDownloadPDF_def foldl_emitPage newDocument_def getNumberOfPages_def
        deletePage_def Let_def)

lemma distinct_map_sort_key:
  "distinct (map f (sort_key f xs)) = distinct (map f xs)"
  by (induction xs) (simp_all add: distinct_insort_key)




text \<open>
  Claim C3. The assembly produces nothing when there is no artifact. Otherwise
  the document has as many pages as there are artifacts, and its pages show,
  one image each, the artifacts in strictly ascending order of page number:
  a page number without an artifact gives no page.
\<close>

theorem one_page_per_artifact_in_order:
  "(pages = [] \<longrightarrow> handleDownloadPDF marginPercent pages = None)
   \<and> (pages \<noteq> [] \<and> distinct (map fst pages) \<longrightarrow>
        (\<exists>doc ordered.
           handleDownloadPDF marginPercent pages = Some doc
         \<and> length doc = length pages
         \<and> set ordered = set pages
         \<and> sorted_wrt (<) (map fst ordered)
         \<and> map (\<lambda>p. map img_url (page_images p)) doc
             = map (\<lambda>entry. [imageUrl (snd entry)]) ordered))"
proof (intro conjI impI)
  assume "pages = []"
  then show "handleDownloadPDF marginPercent pages = None"
    by (simp add: handleDownloadPDF_def)
next
  assume a: "pages \<noteq> [] \<and> distinct (map fst pages)"
  let ?ordered = "sort_key fst pages"
  let ?doc = "map (\<lambda>entry. outputPage marginPercent (snd entry)) ?ordered"
  have "distinct (map fst ?ordered)"
    using a by (simp add: distinct_map_sort_key)
  moreover have "sorted (map fst ?ordered)" by (rule sorted_sort_key)
  ultimately have "sorted_wrt (<) (map fst ?ordered)"
    by (simp add: strict_sorted_iff)
  moreover have "handleDownloadPDF marginPercent pages = Some ?doc"
    using a by (simp add: handleDownloadPDF_pages)
  moreover have "map (\<lambda>p. map img_url (page_images p)) ?doc
                   = map (\<lambda>entry. [imageUrl (snd entry)]) ?ordered"
    by (simp add: outputPage_def Let_def)
  ultimately show "\<exists>doc ordered.
           handleDownloadPDF marginPercent pages = Some doc
         \<and> length doc = length pages
         \<and> set ordered = set pages
         \<and> sorted_wrt (<) (map fst ordered)
         \<and> map (\<lambda>p. map img_url (page_images p)) doc
             = map (\<lambda>entry. [imageUrl (snd entry)]) ordered"
    by (intro exI [of _ ?doc] exI [of _ ?ordered]) simp
qed

theorem one_page_per_artifact_in_order_witness:
  "pagesTwoAndFive \<noteq> [] \<and> distinct (map fst pagesTwoAndFive)
   \<and> (\<exists>doc ordered.
           handleDownloadPDF 0 pagesTwoAndFive = Some doc
         \<and> length doc = length pagesTwoAndFive
         \<and> set ordered = set pagesTwoAndFive
         \<and> sorted_wrt (<) (map fst ordered)
         \<and> map (\<lambda>p. map img_url (page_images p)) doc
             = map (\<lambda>entry. [imageUrl (snd entry)]) ordered)"
proof -
  have h: "pagesTwoAndFive \<noteq> []" "distinct (map fst pagesTwoAndFive)"
    by (simp_all add: pagesTwoAndFive_def)
  from one_page_per_artifact_in_order [of pagesTwoAndFive 0] h
  show ?thesis by blast
qed

lemma pagesTwoAndFive_document:
  "map (\<lambda>p. map img_url (page_images p)) (the (handleDownloadPDF 0 pagesTwoAndFive))
     = [[''two''], [''five'']]"
  by (simp add: handleDownloadPDF_pages pagesTwoAndFive_def outputPage_def)

subsection \<open>The batch run\<close>

lemma batchLoop_done:
  "\<not> i \<le> numPages \<Longrightarrow> batchLoop render colorize numPages i s = (False, s)"
  by (subst batchLoop.simps) simp

lemma batchLoop_throw:
  "i \<le> numPages \<Longrightarrow> render i = None \<Longrightarrow>
   batchLoop render colorize numPages i s
     = (True, suspend (s\<lparr>ui := (ui s)\<lparr>batchProgress := Some (i, numPages)\<rparr>\<rparr>))"
  by (subst batchLoop.simps) (simp add: Let_def)

lemma batchLoop_page:
  "i \<le> numPages \<Longrightarrow> render i = Some rendered \<Longrightarrow>
   batchLoop render colorize numPages i s
     = batchLoop render colorize numPages (Suc i) (afterPage colorize numPages i rendered s)"
  by (subst batchLoop.simps) (simp add: Let_def afterPage_def)

lemma afterPage_seen:
  "seen (afterPage colorize numPages i rendered s)
     = seen s @ [(ui s)\<lparr>batchProgress := Some (i, numPages)\<rparr>,
                 (ui s)\<lparr>batchProgress := Some (i, numPages)\<rparr>]"
  by (simp add: afterPage_def suspend_def Let_def split: option.splits)

lemma afterPage_console:
  assumes "render i = Some rendered"
  shows "console (afterPage colorize numPages i rendered s)
           = console s @ pageFailure render colorize i"
  using assms
  by (simp add: afterPage_def suspend_def pageFailure_def Let_def split: option.splits)

lemma afterPage_ui:
  "isProcessing (ui (afterPage colorize numPages i rendered s)) = isProcessing (ui s)"
  "error (ui (afterPage colorize numPages i rendered s)) = error (ui s)"
  "batchProgress (ui (afterPage colorize numPages i rendered s)) = Some (i, numPages)"
  by (simp_all add: afterPage_def suspend_def Let_def split: option.splits)

lemma afterPage_published:
  assumes "colorizedPages (ui s) = newColorizedMap s"
  shows "colorizedPages (ui (afterPage colorize numPages i rendered s))
           = newColorizedMap (afterPage colorize numPages i rendered s)"
  using assms
  by (simp add: afterPage_def suspend_def Let_def split: option.splits)

lemma afterPage_cache:
  assumes "render i = Some rendered"
  shows "map_of (newColorizedMap (afterPage colorize numPages i rendered s)) l
           = cacheAfter render colorize (newColorizedMap s) i (Suc i) l"
proof (cases "l = i")
  case True
  with assms show ?thesis
    by (simp add: afterPage_def suspend_def cacheAfter_def pageArtifact_def Let_def
          update_conv' split: option.splits)
next
  case False
  then have "\<not> (i \<le> l \<and> l < Suc i)" by arith
  then have "cacheAfter render colorize (newColorizedMap s) i (Suc i) l
               = map_of (newColorizedMap s) l"
    by (simp only: cacheAfter_def if_False)
  moreover have "map_of (newColorizedMap (afterPage colorize numPages i rendered s)) l
                   = map_of (newColorizedMap s) l"
    using False
    by (simp add: afterPage_def suspend_def Let_def update_conv' split: option.splits)
  ultimately show ?thesis by simp
qed

lemma cacheAfter_compose:
  assumes "\<And>l. map_of cache' l = cacheAfter render colorize cache i (Suc i) l"
    and "Suc i \<le> j"
  shows "cacheAfter render colorize cache' (Suc i) j l = cacheAfter render colorize cache i j l"
  using assms by (auto simp: cacheAfter_def split: option.splits)

lemma cacheAfter_empty: "cacheAfter render colorize cache i i l = map_of cache l"
proof -
  have "\<not> (i \<le> l \<and> l < i)" by arith
  then show ?thesis by (simp only: cacheAfter_def if_False)
qed

lemma batchLoop_result:
  assumes "i \<le> k" and "k \<le> Suc numPages"
    and "\<And>j. i \<le> j \<Longrightarrow> j < k \<Longrightarrow> render j \<noteq> None"
    and "k \<le> numPages \<Longrightarrow> render k = None"
    and "colorizedPages (ui s) = newColorizedMap s"
  shows "\<exists>s' ext.
           batchLoop render colorize numPages i s = (k \<le> numPages, s')
         \<and> (\<forall>l. map_of (newColorizedMap s') l
                  = cacheAfter render colorize (newColorizedMap s) i k l)
         \<and> colorizedPages (ui s') = newColorizedMap s'
         \<and> isProcessing (ui s') = isProcessing (ui s)
         \<and> error (ui s') = error (ui s)
         \<and> console s' = console s @ concat (map (pageFailure render colorize) [i..<k])
         \<and> seen s' = seen s @ ext
         \<and> (\<forall>v \<in> set ext. \<exists>j. i \<le> j \<and> j \<le> min k numPages
                \<and> batchProgress v = Some (j, numPages)
                \<and> (\<forall>l. map_of (colorizedPages v) l
                         = cacheAfter render colorize (newColorizedMap s) i j l))
         \<and> (\<forall>j. i \<le> j \<and> j \<le> min k numPages
                \<longrightarrow> Some (j, numPages) \<in> batchProgress ` set ext)"
  using assms
proof (induction "k - i" arbitrary: i s)
  case 0
  then have ki: "k = i" by simp
  show ?case
  proof (cases "i \<le> numPages")
    case False
    then show ?thesis
      using ki "0.prems"(5) by (simp add: batchLoop_done cacheAfter_empty)
  next
    case True
    then have none: "render i = None" using "0.prems"(4) ki by simp
    let ?v = "(ui s)\<lparr>batchProgress := Some (i, numPages)\<rparr>"
    let ?s' = "suspend (s\<lparr>ui := ?v\<rparr>)"
    have "batchLoop render colorize numPages i s = (k \<le> numPages, ?s')"
      using True none ki by (simp add: batchLoop_throw)
    moreover have "seen ?s' = seen s @ [?v]" by (simp add: suspend_def)
    moreover have "\<forall>l. map_of (colorizedPages ?v) l
                         = cacheAfter render colorize (newColorizedMap s) i i l"
      using "0.prems"(5) by (simp add: cacheAfter_empty)
    ultimately show ?thesis
      using True ki "0.prems"(5)
      by (intro exI [of _ ?s'] exI [of _ "[?v]"]) (simp add: suspend_def cacheAfter_empty)
  qed
next
  case (Suc n)
  then have lt: "i < k" by simp
  then have run: "i \<le> numPages" using Suc.prems(2) by simp
  from Suc.prems(3) [of i] lt obtain rendered where some: "render i = Some rendered"
    by auto
  let ?v = "(ui s)\<lparr>batchProgress := Some (i, numPages)\<rparr>"
  let ?s2 = "afterPage colorize numPages i rendered s"
  have step: "batchLoop render colorize numPages i s
                = batchLoop render colorize numPages (Suc i) ?s2"
    using run some by (rule batchLoop_page)
  have cache2: "map_of (newColorizedMap ?s2) l
                  = cacheAfter render colorize (newColorizedMap s) i (Suc i) l" for l
    using some by (rule afterPage_cache)
  have "\<exists>s' ext.
           batchLoop render colorize numPages (Suc i) ?s2 = (k \<le> numPages, s')
         \<and> (\<forall>l. map_of (newColorizedMap s') l
                  = cacheAfter render colorize (newColorizedMap ?s2) (Suc i) k l)
         \<and> colorizedPages (ui s') = newColorizedMap s'
         \<and> isProcessing (ui s') = isProcessing (ui ?s2)
         \<and> error (ui s') = error (ui ?s2)
         \<and> console s' = console ?s2 @ concat (map (pageFailure render colorize) [Suc i..<k])
         \<and> seen s' = seen ?s2 @ ext
         \<and> (\<forall>v \<in> set ext. \<exists>j. Suc i \<le> j \<and> j \<le> min k numPages
                \<and> batchProgress v = Some (j, numPages)
                \<and> (\<forall>l. map_of (colorizedPages v) l
                         = cacheAfter render colorize (newColorizedMap ?s2) (Suc i) j l))
         \<and> (\<forall>j. Suc i \<le> j \<and> j \<le> min k numPages
                \<longrightarrow> Some (j, numPages) \<in> batchProgress ` set ext)"
  proof (rule Suc.hyps(1))
    show "n = k - Suc i" using Suc.hyps(2) by simp
    show "Suc i \<le> k" using lt by simp
    show "k \<le> Suc numPages" by (rule Suc.prems(2))
    show "render j \<noteq> None" if "Suc i \<le> j" "j < k" for j
      using that Suc.prems(3) [of j] by simp
    show "render k = None" if "k \<le> numPages"
      using that by (rule Suc.prems(4))
    show "colorizedPages (ui ?s2) = newColorizedMap ?s2"
      using Suc.prems(5) by (rule afterPage_published)
  qed
  then obtain s' ext where
    res: "batchLoop render colorize numPages (Suc i) ?s2 = (k \<le> numPages, s')"
    and cache: "\<And>l. map_of (newColorizedMap s') l
                  = cacheAfter render colorize (newColorizedMap ?s2) (Suc i) k l"
    and pub: "colorizedPages (ui s') = newColorizedMap s'"
    and proc: "isProcessing (ui s') = isProcessing (ui ?s2)"
    and err: "error (ui s') = error (ui ?s2)"
    and log: "console s' = console ?s2 @ concat (map (pageFailure render colorize) [Suc i..<k])"
    and seen: "seen s' = seen ?s2 @ ext"
    and obs: "\<And>v. v \<in> set ext \<Longrightarrow> \<exists>j. Suc i \<le> j \<and> j \<le> min k numPages
                \<and> batchProgress v = Some (j, numPages)
                \<and> (\<forall>l. map_of (colorizedPages v) l
                         = cacheAfter render colorize (newColorizedMap ?s2) (Suc i) j l)"
    and all: "\<And>j. Suc i \<le> j \<Longrightarrow> j \<le> min k numPages
                \<Longrightarrow> Some (j, numPages) \<in> batchProgress ` set ext"
    by blast
  let ?ext = "[?v, ?v] @ ext"
  have c1: "batchLoop render colorize numPages i s = (k \<le> numPages, s')"
    using step res by simp
  have c2: "\<forall>l. map_of (newColorizedMap s') l
                  = cacheAfter render colorize (newColorizedMap s) i k l"
    using cache cacheAfter_compose [of "newColorizedMap ?s2" render colorize "newColorizedMap s" i k]
      cache2 lt by simp
  have c4: "isProcessing (ui s') = isProcessing (ui s)" "error (ui s') = error (ui s)"
    using proc err by (simp_all add: afterPage_ui)
  have "[i..<k] = i # [Suc i..<k]" using lt by (simp add: upt_conv_Cons)
  then have c5: "console s' = console s @ concat (map (pageFailure render colorize) [i..<k])"
    using log afterPage_console [of render i rendered colorize numPages s] some by simp
  have c6: "seen s' = seen s @ ?ext"
    using seen by (simp add: afterPage_seen)
  have c7: "\<exists>j. i \<le> j \<and> j \<le> min k numPages
                \<and> batchProgress v = Some (j, numPages)
                \<and> (\<forall>l. map_of (colorizedPages v) l
                         = cacheAfter render colorize (newColorizedMap s) i j l)"
    if "v \<in> set ?ext" for v
  proof (cases "v = ?v")
    case True
    have "i \<le> min k numPages" using lt run by simp
    moreover have "batchProgress v = Some (i, numPages)" using True by simp
    moreover have "\<forall>l. map_of (colorizedPages v) l
                         = cacheAfter render colorize (newColorizedMap s) i i l"
      using True Suc.prems(5) by (simp add: cacheAfter_empty)
    ultimately show ?thesis by blast
  next
    case False
    with that have "v \<in> set ext" by simp
    from obs [OF this] obtain j where j: "Suc i \<le> j" "j \<le> min k numPages"
      "batchProgress v = Some (j, numPages)"
      "\<forall>l. map_of (colorizedPages v) l
             = cacheAfter render colorize (newColorizedMap ?s2) (Suc i) j l"
      by blast
    have "\<forall>l. map_of (colorizedPages v) l
             = cacheAfter render colorize (newColorizedMap s) i j l"
      using j(4) cacheAfter_compose [of "newColorizedMap ?s2" render colorize
          "newColorizedMap s" i j] cache2 j(1) by simp
    with j show ?thesis by (intro exI [of _ j]) simp
  qed
  have c8: "Some (j, numPages) \<in> batchProgress ` set ?ext"
    if "i \<le> j" "j \<le> min k numPages" for j
  proof (cases "j = i")
    case True
    have "batchProgress ?v = Some (i, numPages)" by simp
    then have "Some (i, numPages) \<in> batchProgress ` set [?v]"
      by (metis image_eqI list.set_intros(1))
    then show ?thesis using True by auto
  next
    case False
    with that have "Suc i \<le> j" by simp
    from all [OF this that(2)] show ?thesis by auto
  qed
  show ?case
    using c1 c2 pub c4 c5 c6 c7 c8
    by (intro exI [of _ s'] exI [of _ ?ext]) blast
qed

lemma handleColorizeAll_result:
  fixes render :: "nat \<Rightarrow> RenderedPage option" and colorize :: "string \<Rightarrow> ColorizationResult"
    and numPages k :: nat and st :: app
  assumes "1 \<le> k" and "k \<le> Suc numPages"
    and "\<forall>j. 1 \<le> j \<and> j < k \<longrightarrow> render j \<noteq> None"
    and "k \<le> numPages \<longrightarrow> render k = None"
  defines "r \<equiv> handleColorizeAll True render colorize numPages st"
  shows "(\<forall>l. map_of (colorizedPages (ui r)) l
               = cacheAfter render colorize (colorizedPages st) 1 k l)
       \<and> console r = concat (map (pageFailure render colorize) [1..<k])
                        @ (if k \<le> numPages then [BatchError] else [])
       \<and> error (ui r)
           = (if k \<le> numPages then Some ''Batch processing stopped due to an error.'' else None)
       \<and> batchProgress (ui r) = None
       \<and> isProcessing (ui r) = False
       \<and> (\<forall>v \<in> set (seen r). \<exists>j. 1 \<le> j \<and> j \<le> min k numPages
              \<and> batchProgress v = Some (j, numPages)
              \<and> (\<forall>l. map_of (colorizedPages v) l
                       = cacheAfter render colorize (colorizedPages st) 1 j l))
       \<and> (\<forall>j. 1 \<le> j \<and> j \<le> min k numPages
              \<longrightarrow> Some (j, numPages) \<in> batchProgress ` set (seen r))"
proof -
  let ?st = "st\<lparr>isProcessing := True, batchProgress := Some (0, numPages), error := None\<rparr>"
  let ?s0 = "\<lparr>ui = ?st, newColorizedMap = colorizedPages ?st, console = [], seen = []\<rparr>"
  have "\<exists>s' ext.
           batchLoop render colorize numPages 1 ?s0 = (k \<le> numPages, s')
         \<and> (\<forall>l. map_of (newColorizedMap s') l
                  = cacheAfter render colorize (newColorizedMap ?s0) 1 k l)
         \<and> colorizedPages (ui s') = newColorizedMap s'
         \<and> isProcessing (ui s') = isProcessing (ui ?s0)
         \<and> error (ui s') = error (ui ?s0)
         \<and> console s' = console ?s0 @ concat (map (pageFailure render colorize) [1..<k])
         \<and> seen s' = seen ?s0 @ ext
         \<and> (\<forall>v \<in> set ext. \<exists>j. 1 \<le> j \<and> j \<le> min k numPages
                \<and> batchProgress v = Some (j, numPages)
                \<and> (\<forall>l. map_of (colorizedPages v) l
                         = cacheAfter render colorize (newColorizedMap ?s0) 1 j l))
         \<and> (\<forall>j. 1 \<le> j \<and> j \<le> min k numPages
                \<longrightarrow> Some (j, numPages) \<in> batchProgress ` set ext)"
    using assms(1-4) by (intro batchLoop_result) simp_all
  then obtain s' ext where
    res: "batchLoop render colorize numPages 1 ?s0 = (k \<le> numPages, s')"
    and cache: "\<forall>l. map_of (newColorizedMap s') l
                  = cacheAfter render colorize (colorizedPages st) 1 k l"
    and pub: "colorizedPages (ui s') = newColorizedMap s'"
    and err: "error (ui s') = None"
    and log: "console s' = concat (map (pageFailure render colorize) [1..<k])"
    and seen: "seen s' = ext"
    and obs: "\<forall>v \<in> set ext. \<exists>j. 1 \<le> j \<and> j \<le> min k numPages
                \<and> batchProgress v = Some (j, numPages)
                \<and> (\<forall>l. map_of (colorizedPages v) l
                         = cacheAfter render colorize (colorizedPages st) 1 j l)"
    and all: "\<forall>j. 1 \<le> j \<and> j \<le> min k numPages
                \<longrightarrow> Some (j, numPages) \<in> batchProgress ` set ext"
    by auto
  have r: "r = (if k \<le> numPages
                then s'\<lparr>ui := (ui s')\<lparr>error := Some ''Batch processing stopped due to an error.'',
                                       isProcessing := False, batchProgress := None\<rparr>,
                        console := console s' @ [BatchError]\<rparr>
                else s'\<lparr>ui := (ui s')\<lparr>isProcessing := False, batchProgress := None\<rparr>\<rparr>)"
    unfolding r_def handleColorizeAll_def Let_def using res by simp
  show ?thesis
  proof (cases "k \<le> numPages")
    case True
    then show ?thesis
      unfolding r using cache pub err log seen obs all by simp
  next
    case False
    then show ?thesis
      unfolding r using cache pub err log seen obs all by simp
  qed
qed

lemma rendersStopAtD:
  assumes "rendersStopAt render numPages k"
  shows "1 \<le> k" and "k \<le> Suc numPages"
    and "\<forall>j. 1 \<le> j \<and> j < k \<longrightarrow> render j \<noteq> None"
    and "k \<le> numPages \<longrightarrow> render k = None"
  using assms by (auto simp: rendersStopAt_def list_all_iff)

text \<open>
  Claim C2 says that a failed render is logged and skipped. With four pages and
  a render that throws on page 3, page 4 is never processed although it would
  succeed, the progress never shows page 4 of 4, and the run ends with the
  error of the \<^verbatim>\<open>catch\<close> block.
\<close>

theorem batch_counterexample:
  "pageArtifact renderExcept3 colorizeOk 4 \<noteq> None
   \<and> map_of (colorizedPages (ui (handleColorizeAll True renderExcept3 colorizeOk 4 idleApp))) 4 = None
   \<and> Some (4, 4) \<notin> set (map batchProgress (seen (handleColorizeAll True renderExcept3 colorizeOk 4 idleApp)))
   \<and> error (ui (handleColorizeAll True renderExcept3 colorizeOk 4 idleApp))
       = Some ''Batch processing stopped due to an error.''"
  by (simp add: handleColorizeAll_def batchLoop.simps Let_def suspend_def truthy_def
        pageArtifact_def renderExcept3_def renderAll_def colorizeOk_def idleApp_def)

text \<open>
  Claim C2, amended. Let \<open>k\<close> be the first page whose render throws, or
  \<open>numPages + 1\<close> when none does. Every page before \<open>k\<close> is processed: a failed
  transform is logged and the run goes on, the cache gets the artifact of every
  page before \<open>k\<close> that succeeds and keeps its earlier entry for every other
  page, and the progress shows every page from 1 to \<open>min k numPages\<close>. When no
  render throws, the progress thus reaches \<open>numPages\<close> of \<open>numPages\<close> and no error is
  set. When the render of page \<open>k\<close> throws, the run stops there: the pages from
  \<open>k\<close> on are not processed and the error of the \<^verbatim>\<open>catch\<close> block is set and logged.
  In both cases the progress is absent at the end.
\<close>

theorem batch_run_outcome:
  fixes render :: "nat \<Rightarrow> RenderedPage option" and colorize :: "string \<Rightarrow> ColorizationResult"
    and numPages k :: nat and st :: app
  assumes "rendersStopAt render numPages k"
  defines "r \<equiv> handleColorizeAll True render colorize numPages st"
  shows "(\<forall>l. map_of (colorizedPages (ui r)) l
               = cacheAfter render colorize (colorizedPages st) 1 k l)
       \<and> console r = concat (map (pageFailure render colorize) [1..<k])
                        @ (if k \<le> numPages then [BatchError] else [])
       \<and> error (ui r)
           = (if k \<le> numPages then Some ''Batch processing stopped due to an error.'' else None)
       \<and> (\<forall>j. Some (j, numPages) \<in> set (map batchProgress (seen r))
              \<longleftrightarrow> 1 \<le> j \<and> j \<le> min k numPages)
       \<and> batchProgress (ui r) = None
       \<and> isProcessing (ui r) = False"
proof -
  note R = handleColorizeAll_result [OF rendersStopAtD [OF assms(1)], of colorize st,
      folded r_def]
  have "Some (j, numPages) \<in> set (map batchProgress (seen r))
          \<longleftrightarrow> 1 \<le> j \<and> j \<le> min k numPages" for j
  proof
    assume "Some (j, numPages) \<in> set (map batchProgress (seen r))"
    then obtain v where v: "v \<in> set (seen r)" "batchProgress v = Some (j, numPages)"
      by auto
    from R v(1) obtain j' where "1 \<le> j'" "j' \<le> min k numPages"
      "batchProgress v = Some (j', numPages)"
      by blast
    with v(2) show "1 \<le> j \<and> j \<le> min k numPages" by simp
  next
    assume "1 \<le> j \<and> j \<le> min k numPages"
    with R show "Some (j, numPages) \<in> set (map batchProgress (seen r))" by simp
  qed
  with R show ?thesis by blast
qed

theorem batch_run_outcome_witness:
  "rendersStopAt renderAll 4 5
   \<and> map_of (colorizedPages (ui (handleColorizeAll True renderAll colorizeExcept2 4 idleApp))) 2
       = None
   \<and> map_of (colorizedPages (ui (handleColorizeAll True renderAll colorizeExcept2 4 idleApp))) 3
       = Some \<lparr>imageUrl = ''tinted-ppp'', width = 1836, height = 2376\<rparr>
   \<and> console (handleColorizeAll True renderAll colorizeExcept2 4 idleApp)
       = [PageError 2 ''Failed to load image data.'']
   \<and> error (ui (handleColorizeAll True renderAll colorizeExcept2 4 idleApp)) = None
   \<and> Some (4, 4) \<in> set (map batchProgress (seen (handleColorizeAll True renderAll colorizeExcept2 4 idleApp)))"
proof -
  have h: "rendersStopAt renderAll 4 5"
    by (simp add: rendersStopAt_def renderAll_def list_all_iff)
  define R where "R = handleColorizeAll True renderAll colorizeExcept2 4 idleApp"
  note T = batch_run_outcome [OF h, of colorizeExcept2 idleApp, folded R_def]
  from T have t1: "map_of (colorizedPages (ui R)) l
                 = cacheAfter renderAll colorizeExcept2 (colorizedPages idleApp) 1 5 l" for l
    by blast
  from T have t2: "console R = concat (map (pageFailure renderAll colorizeExcept2) [1..<5])
                        @ (if (5::nat) \<le> 4 then [BatchError] else [])"
    by blast
  from T have t3: "error (ui R)
           = (if (5::nat) \<le> 4 then Some ''Batch processing stopped due to an error.'' else None)"
    by blast
  from T have t4: "Some (4, 4) \<in> set (map batchProgress (seen R))
              \<longleftrightarrow> (1::nat) \<le> 4 \<and> (4::nat) \<le> min 5 4"
    by blast
  have e1: "cacheAfter renderAll colorizeExcept2 (colorizedPages idleApp) 1 5 2 = None"
    "cacheAfter renderAll colorizeExcept2 (colorizedPages idleApp) 1 5 3
       = Some \<lparr>imageUrl = ''tinted-ppp'', width = 1836, height = 2376\<rparr>"
    by (simp_all add: cacheAfter_def pageArtifact_def renderAll_def colorizeExcept2_def
          colorizeOk_def truthy_def idleApp_def numeral_eq_Suc)
  have e2: "concat (map (pageFailure renderAll colorizeExcept2) [1..<5])
              = [PageError 2 ''Failed to load image data.'']"
    by (simp add: upt_rec pageFailure_def renderAll_def colorizeExcept2_def colorizeOk_def
          truthy_def numeral_eq_Suc)
  have c: "map_of (colorizedPages (ui R)) 2 = None"
      "map_of (colorizedPages (ui R)) 3
         = Some \<lparr>imageUrl = ''tinted-ppp'', width = 1836, height = 2376\<rparr>"
      "console R = [PageError 2 ''Failed to load image data.'']"
      "error (ui R) = None"
      "Some (4, 4) \<in> set (map batchProgress (seen R))"
    using t1 [of 2] t1 [of 3] t2 t3 t4 e1 e2 by simp_all
  show ?thesis unfolding R_def [symmetric] by (intro conjI h c)
qed

text \<open>
  Claim C5 says that the cache holds the artifact of page \<open>i\<close> whenever the
  progress shows \<open>i\<close>. In a run over one page that succeeds, both observations
  show page 1 of 1 with an empty cache; the artifact is there only at the end.
\<close>

theorem progress_counterexample:
  "map batchProgress (seen (handleColorizeAll True renderAll colorizeOk 1 idleApp))
     = [Some (1, 1), Some (1, 1)]
   \<and> map colorizedPages (seen (handleColorizeAll True renderAll colorizeOk 1 idleApp)) = [[], []]
   \<and> map fst (colorizedPages (ui (handleColorizeAll True renderAll colorizeOk 1 idleApp))) = [1]"
  by (simp add: handleColorizeAll_def batchLoop.simps Let_def suspend_def truthy_def
        renderAll_def colorizeOk_def idleApp_def)

text \<open>
  Claim C5, amended. The progress for page \<open>i\<close> is published at the start of the
  iteration for page \<open>i\<close>, before the page is rendered, and the cache is updated
  for page \<open>i\<close> at the end of that iteration. So at every observation during the
  run the progress shows some page \<open>i\<close>, the cache holds the artifacts of the
  pages before \<open>i\<close> that succeeded, and its entry for page \<open>i\<close> is still the one
  from before the run.
\<close>

theorem progress_precedes_cache:
  fixes render :: "nat \<Rightarrow> RenderedPage option" and colorize :: "string \<Rightarrow> ColorizationResult"
    and numPages k :: nat and st :: app
  assumes "rendersStopAt render numPages k"
    and "v \<in> set (seen (handleColorizeAll True render colorize numPages st))"
  shows "\<exists>i. 1 \<le> i \<and> i \<le> min k numPages
            \<and> batchProgress v = Some (i, numPages)
            \<and> (\<forall>l. map_of (colorizedPages v) l
                     = cacheAfter render colorize (colorizedPages st) 1 i l)
            \<and> map_of (colorizedPages v) i = map_of (colorizedPages st) i"
proof -
  from handleColorizeAll_result [OF rendersStopAtD [OF assms(1)], of colorize st] assms(2)
  obtain i where i: "1 \<le> i" "i \<le> min k numPages" "batchProgress v = Some (i, numPages)"
    "\<forall>l. map_of (colorizedPages v) l = cacheAfter render colorize (colorizedPages st) 1 i l"
    by blast
  have "\<not> (1 \<le> i \<and> i < i)" by simp
  then have "cacheAfter render colorize (colorizedPages st) 1 i i = map_of (colorizedPages st) i"
    by (simp only: cacheAfter_def if_False)
  with i show ?thesis by (intro exI [of _ i]) simp
qed

theorem progress_precedes_cache_witness:
  "rendersStopAt renderAll 1 2
   \<and> idleApp\<lparr>isProcessing := True, batchProgress := Some (1, 1)\<rparr>
        \<in> set (seen (handleColorizeAll True renderAll colorizeOk 1 idleApp))
   \<and> (\<exists>i. 1 \<le> i \<and> i \<le> min 2 1
          \<and> batchProgress (idleApp\<lparr>isProcessing := True, batchProgress := Some (1, 1)\<rparr>)
              = Some (i, 1)
          \<and> (\<forall>l. map_of (colorizedPages (idleApp\<lparr>isProcessing := True, batchProgress := Some (1, 1)\<rparr>)) l
                   = cacheAfter renderAll colorizeOk (colorizedPages idleApp) 1 i l)
          \<and> map_of (colorizedPages (idleApp\<lparr>isProcessing := True, batchProgress := Some (1, 1)\<rparr>)) i
              = map_of (colorizedPages idleApp) i)"
proof -
  have h: "rendersStopAt renderAll 1 2"
    by (simp add: rendersStopAt_def renderAll_def list_all_iff)
  have v: "idleApp\<lparr>isProcessing := True, batchProgress := Some (1, 1)\<rparr>
        \<in> set (seen (handleColorizeAll True renderAll colorizeOk 1 idleApp))"
    by (simp add: handleColorizeAll_def batchLoop.simps Let_def suspend_def truthy_def
        renderAll_def colorizeOk_def idleApp_def)
  from progress_precedes_cache [OF h v] h v show ?thesis by blast
qed

end
